theory Spec2Isabelle
  imports Main
begin

section \<open>Bulls and Cows: the program of \<^verbatim>\<open>pokus_3.1.py\<close>\<close>

text \<open>
  Python lists of digits are \<open>int list\<close>, Python integers are \<open>int\<close>, lengths and
  indices are \<open>nat\<close>. An exception raised by the source or by a built-in it calls is a
  value \<open>Inl e\<close> of a result type \<open>py_error + 'a\<close>.
\<close>

datatype py_error = ValueError | IndexError

definition DIGIT_COUNT :: nat where
  "DIGIT_COUNT = 4"

subsection \<open>Strings and characters\<close>

text \<open>
  A Python \<^verbatim>\<open>str\<close> is a sequence of code points. It is modelled as a \<open>string\<close>, whose
  characters are the code points below 256. On these, \<^verbatim>\<open>str.isdecimal\<close> holds of the
  ten characters \<^verbatim>\<open>0\<close> to \<^verbatim>\<open>9\<close>, and \<^verbatim>\<open>str.isdigit\<close> holds of these and of the
  superscript digits U+00B2, U+00B3 and U+00B9. Both are false of the empty string.
\<close>

definition isdecimal_chr :: "char \<Rightarrow> bool" where
  "isdecimal_chr c = (c \<in> set ''0123456789'')"

definition isdigit_chr :: "char \<Rightarrow> bool" where
  "isdigit_chr c = (isdecimal_chr c \<or> c \<in> set [CHR 0xB2, CHR 0xB3, CHR 0xB9])"

definition isdigit :: "string \<Rightarrow> bool" where
  "isdigit s = (s \<noteq> [] \<and> list_all isdigit_chr s)"

text \<open>
  \<^verbatim>\<open>str(n)\<close>, which is also how an f-string renders an integer: the decimal digits, after a
  minus sign for a negative number.
\<close>

fun str_nat :: "nat \<Rightarrow> string" where
  "str_nat n =
     (if n < 10 then [''0123456789'' ! n]
      else str_nat (n div 10) @ [''0123456789'' ! (n mod 10)])"

declare str_nat.simps [simp del]

definition str_int :: "int \<Rightarrow> string" where
  "str_int i = (if i < 0 then CHR ''-'' # str_nat (nat (- i)) else str_nat (nat i))"

text \<open>
  \<^verbatim>\<open>int(d)\<close> of a one-character string \<open>d\<close>: the value of a decimal character, and
  \<^verbatim>\<open>ValueError\<close> for any other character (a superscript digit included).
\<close>

definition int_chr :: "char \<Rightarrow> py_error + int" where
  "int_chr d = (if isdecimal_chr d then Inr (int (of_char d) - 48) else Inl ValueError)"

subsection \<open>\<^verbatim>\<open>generate_number\<close>\<close>

text \<open>
  \<^verbatim>\<open>random.sample(range(0, 10), DIGIT_COUNT)\<close> is the only source of randomness; its
  result is the argument \<open>sample\<close>. The loop runs \<open>i\<close> over \<^verbatim>\<open>range(1, DIGIT_COUNT)\<close>,
  swaps at the first \<open>i\<close> with a non-zero digit and breaks. An index past the end of the
  list raises \<^verbatim>\<open>IndexError\<close>.
\<close>

fun swap_first_nonzero :: "nat list \<Rightarrow> int list \<Rightarrow> py_error + int list" where
  "swap_first_nonzero [] digits = Inr digits"
| "swap_first_nonzero (i # rest) digits =
     (if length digits \<le> i then Inl IndexError
      else if digits ! i \<noteq> 0 then Inr (digits[0 := digits ! i, i := digits ! 0])
      else swap_first_nonzero rest digits)"

definition generate_number :: "int list \<Rightarrow> py_error + int list" where
  "generate_number sample =
     (let digits = sample
      in if digits = [] then Inl IndexError
         else if digits ! 0 = 0 then swap_first_nonzero [1..<DIGIT_COUNT] digits
         else Inr digits)"

subsection \<open>\<^verbatim>\<open>is_valid_input\<close>\<close>

text \<open>
  The four \<^verbatim>\<open>if\<close> statements run one after the other, each appending to \<open>errors\<close>.
  \<^verbatim>\<open>user_input and user_input[0] == "0"\<close> reads the first character only of a non-empty
  string; \<^verbatim>\<open>len(set(user_input))\<close> is the number of different characters.
\<close>

definition is_valid_input :: "string \<Rightarrow> bool \<times> string list" where
  "is_valid_input user_input =
     (let errors = [];
          errors = (if \<not> isdigit user_input
                    then errors @ [''Input must contain only digits.''] else errors);
          errors = (if length user_input \<noteq> DIGIT_COUNT
                    then errors @ [''Input must be '' @ str_int (int DIGIT_COUNT) @ '' digits long.'']
                    else errors);
          errors = (if user_input \<noteq> [] \<and> user_input ! 0 = CHR ''0''
                    then errors @ [''Number cannot start with zero.''] else errors);
          errors = (if card (set user_input) \<noteq> length user_input
                    then errors @ [''Digits must be unique.''] else errors)
      in (length errors = 0, errors))"

text \<open>
  The validator as the specification words it, for comparison with the code: check (a)
  every character is a decimal digit, (b) the length equals \<open>n\<close>, (c) the first character
  is not \<^verbatim>\<open>0\<close>, (d) the characters are pairwise distinct; valid when all four hold, and
  otherwise one message for each failed check, in this order.
\<close>

definition spec_validate :: "string \<Rightarrow> nat \<Rightarrow> bool \<times> string list" where
  "spec_validate raw n =
     (let a = list_all isdecimal_chr raw;
          b = (length raw = n);
          c = (case raw of [] \<Rightarrow> True | first # _ \<Rightarrow> first \<noteq> CHR ''0'');
          d = distinct raw
      in (a \<and> b \<and> c \<and> d,
          (if a then [] else [''Input must contain only digits.'']) @
          (if b then [] else [''Input must be '' @ str_int (int n) @ '' digits long.'']) @
          (if c then [] else [''Number cannot start with zero.'']) @
          (if d then [] else [''Digits must be unique.''])))"

subsection \<open>\<^verbatim>\<open>pluralize\<close>\<close>

text \<open>
  The defaults of the source are \<^verbatim>\<open>suffix = "s"\<close> and \<^verbatim>\<open>show_count = True\<close>; the model
  takes all four arguments.
\<close>

definition pluralize :: "int \<Rightarrow> string \<Rightarrow> string \<Rightarrow> bool \<Rightarrow> string" where
  "pluralize count singular suffix show_count =
     (let word = (if count = 1 then singular else singular @ suffix)
      in if show_count then str_int count @ '' '' @ word else word)"

subsection \<open>\<^verbatim>\<open>evaluate_guess\<close>\<close>

text \<open>
  The first loop walks \<^verbatim>\<open>zip(secret, guess)\<close>, which stops at the end of the shorter
  list. Its state is \<open>(bulls, unmatched_secret, unmatched_guess)\<close>.
\<close>

fun position_pass :: "(int \<times> int) list \<Rightarrow> int \<times> int list \<times> int list \<Rightarrow> int \<times> int list \<times> int list" where
  "position_pass [] (bulls, unmatched_secret, unmatched_guess) =
     (bulls, unmatched_secret, unmatched_guess)"
| "position_pass ((secret_digit, guess_digit) # rest) (bulls, unmatched_secret, unmatched_guess) =
     (if secret_digit = guess_digit
      then position_pass rest (bulls + 1, unmatched_secret, unmatched_guess)
      else position_pass rest
             (bulls, unmatched_secret @ [secret_digit], unmatched_guess @ [guess_digit]))"

text \<open>
  \<^verbatim>\<open>list.remove(x)\<close> deletes the first occurrence of \<open>x\<close> and raises
  \<^verbatim>\<open>ValueError\<close> when there is none.
\<close>

definition list_remove :: "int \<Rightarrow> int list \<Rightarrow> py_error + int list" where
  "list_remove x xs = (if x \<in> set xs then Inr (remove1 x xs) else Inl ValueError)"

text \<open>The second loop walks \<open>unmatched_guess\<close>; its state is \<open>(cows, unmatched_secret)\<close>.\<close>

fun cow_pass :: "int list \<Rightarrow> int \<times> int list \<Rightarrow> py_error + (int \<times> int list)" where
  "cow_pass [] (cows, unmatched_secret) = Inr (cows, unmatched_secret)"
| "cow_pass (digit # rest) (cows, unmatched_secret) =
     (if digit \<in> set unmatched_secret
      then (case list_remove digit unmatched_secret of
              Inl e \<Rightarrow> Inl e
            | Inr unmatched_secret' \<Rightarrow> cow_pass rest (cows + 1, unmatched_secret'))
      else cow_pass rest (cows, unmatched_secret))"

definition evaluate_guess :: "int list \<Rightarrow> int list \<Rightarrow> py_error + (int \<times> int)" where
  "evaluate_guess secret guess =
     (case position_pass (zip secret guess) (0, [], []) of
        (bulls, unmatched_secret, unmatched_guess) \<Rightarrow>
          (case cow_pass unmatched_guess (0, unmatched_secret) of
             Inl e \<Rightarrow> Inl e
           | Inr (cows, _) \<Rightarrow> Inr (bulls, cows)))"

text \<open>
  Every increment of \<open>cows\<close> is paired with one \<^verbatim>\<open>unmatched_secret.remove(digit)\<close>, so
  the cows credited for a digit value \<open>d\<close> are the occurrences of \<open>d\<close> that the second
  loop took out of \<open>unmatched_secret\<close>: those in the list before the loop minus those in
  the list after it.
\<close>

definition removed :: "int \<Rightarrow> int list \<Rightarrow> int list \<Rightarrow> nat" where
  "removed d before after = count_list before d - count_list after d"

subsection \<open>\<^verbatim>\<open>evaluate_guess\<close> on a store\<close>

text \<open>
  Python lists are objects, and \<^verbatim>\<open>append\<close> and \<^verbatim>\<open>remove\<close> change them in place. Here
  the store is the list of all list objects, a reference is an index into it, and a new
  list gets the next free index. \<open>secret\<close> and \<open>guess\<close> are references, possibly the same.
  A list iterator keeps an index and reads the list again at every step, so both loops
  are recursions on an index that look the list up in the current store. They take fuel,
  since a loop that appends to the list it walks never ends; \<open>None\<close> is running out of it.
\<close>

type_synonym heap = "int list list"

definition heap_new_list :: "heap \<Rightarrow> heap \<times> nat" where
  "heap_new_list h = (h @ [[]], length h)"

definition heap_append :: "heap \<Rightarrow> nat \<Rightarrow> int \<Rightarrow> heap" where
  "heap_append h a x = h[a := h ! a @ [x]]"

definition heap_remove :: "heap \<Rightarrow> nat \<Rightarrow> int \<Rightarrow> py_error + heap" where
  "heap_remove h a x =
     (case list_remove x (h ! a) of Inl e \<Rightarrow> Inl e | Inr xs \<Rightarrow> Inr (h[a := xs]))"

fun position_loop ::
  "nat \<Rightarrow> heap \<Rightarrow> nat \<Rightarrow> nat \<Rightarrow> nat \<Rightarrow> nat \<Rightarrow> nat \<Rightarrow> int \<Rightarrow> (heap \<times> int) option" where
  "position_loop 0 h secret guess unmatched_secret unmatched_guess i bulls = None"
| "position_loop (Suc fuel) h secret guess unmatched_secret unmatched_guess i bulls =
     (if i < length (h ! secret) \<and> i < length (h ! guess)
      then (let secret_digit = h ! secret ! i; guess_digit = h ! guess ! i
            in if secret_digit = guess_digit
               then position_loop fuel h secret guess unmatched_secret unmatched_guess
                      (i + 1) (bulls + 1)
               else position_loop fuel
                      (heap_append (heap_append h unmatched_secret secret_digit)
                         unmatched_guess guess_digit)
                      secret guess unmatched_secret unmatched_guess (i + 1) bulls)
      else Some (h, bulls))"

fun cow_loop ::
  "nat \<Rightarrow> heap \<Rightarrow> nat \<Rightarrow> nat \<Rightarrow> nat \<Rightarrow> int \<Rightarrow> (py_error + heap \<times> int) option" where
  "cow_loop 0 h unmatched_secret unmatched_guess j cows = None"
| "cow_loop (Suc fuel) h unmatched_secret unmatched_guess j cows =
     (if j < length (h ! unmatched_guess)
      then (let digit = h ! unmatched_guess ! j
            in if digit \<in> set (h ! unmatched_secret)
               then (case heap_remove h unmatched_secret digit of
                       Inl e \<Rightarrow> Some (Inl e)
                     | Inr h' \<Rightarrow> cow_loop fuel h' unmatched_secret unmatched_guess
                                  (j + 1) (cows + 1))
               else cow_loop fuel h unmatched_secret unmatched_guess (j + 1) cows)
      else Some (Inr (h, cows)))"

definition evaluate_guess_heap ::
  "nat \<Rightarrow> heap \<Rightarrow> nat \<Rightarrow> nat \<Rightarrow> (py_error + heap \<times> (int \<times> int)) option" where
  "evaluate_guess_heap fuel h secret guess =
     (case heap_new_list h of (h1, unmatched_secret) \<Rightarrow>
      case heap_new_list h1 of (h2, unmatched_guess) \<Rightarrow>
      case position_loop fuel h2 secret guess unmatched_secret unmatched_guess 0 0 of
        None \<Rightarrow> None
      | Some (h3, bulls) \<Rightarrow>
          (case cow_loop fuel h3 unmatched_secret unmatched_guess 0 0 of
             None \<Rightarrow> None
           | Some (Inl e) \<Rightarrow> Some (Inl e)
           | Some (Inr (h4, cows)) \<Rightarrow> Some (Inr (h4, (bulls, cows)))))"

subsection \<open>\<^verbatim>\<open>play_game\<close>\<close>

text \<open>
  The state of a game is the three local variables of \<^verbatim>\<open>play_game\<close>. Standard input is
  the list of what the successive calls of \<^verbatim>\<open>input\<close> give: a line, or
  \<^verbatim>\<open>KeyboardInterrupt\<close>; at the end of the list \<^verbatim>\<open>input\<close> raises \<^verbatim>\<open>EOFError\<close>. Both
  exceptions are caught and end the process through \<^verbatim>\<open>exit()\<close>. What the program prints
  is not part of the model, and neither is the clock reading taken at the win, which is
  only printed.
\<close>

record 't session =
  secret_number :: "int list"
  attempts :: int
  start_time :: 't

datatype stdin_event = Line string | KeyboardInterrupt

datatype 't step = Continue "'t session" | Break "'t session" | Raise py_error

datatype 't outcome = Won "'t session" | Goodbye "'t session" | Crashed py_error

text \<open>\<^verbatim>\<open>[int(d) for d in user_input]\<close>: the first character that \<^verbatim>\<open>int\<close> rejects raises.\<close>

fun parse_guess :: "string \<Rightarrow> py_error + int list" where
  "parse_guess [] = Inr []"
| "parse_guess (d # rest) =
     (case int_chr d of
        Inl e \<Rightarrow> Inl e
      | Inr n \<Rightarrow> (case parse_guess rest of Inl e \<Rightarrow> Inl e | Inr ns \<Rightarrow> Inr (n # ns)))"

text \<open>The body of the \<^verbatim>\<open>while True\<close> loop, after a line was read.\<close>

definition play_step :: "'t session \<Rightarrow> string \<Rightarrow> 't step" where
  "play_step st user_input =
     (case is_valid_input user_input of (is_valid, messages) \<Rightarrow>
        if \<not> is_valid then Continue st
        else (case parse_guess user_input of
                Inl e \<Rightarrow> Raise e
              | Inr guess \<Rightarrow>
                  (let st' = st\<lparr>attempts := attempts st + 1\<rparr>
                   in case evaluate_guess (secret_number st') guess of
                        Inl e \<Rightarrow> Raise e
                      | Inr (bulls, cows) \<Rightarrow>
                          if bulls = int DIGIT_COUNT then Break st' else Continue st')))"

fun play_loop :: "'t session \<Rightarrow> stdin_event list \<Rightarrow> 't outcome" where
  "play_loop st [] = Goodbye st"
| "play_loop st (KeyboardInterrupt # rest) = Goodbye st"
| "play_loop st (Line user_input # rest) =
     (case play_step st user_input of
        Continue st' \<Rightarrow> play_loop st' rest
      | Break st' \<Rightarrow> Won st'
      | Raise e \<Rightarrow> Crashed e)"

text \<open>\<open>sample\<close> is the draw of \<^verbatim>\<open>random.sample\<close> and \<open>now\<close> the reading of \<^verbatim>\<open>time.time()\<close>.\<close>

definition play_game :: "int list \<Rightarrow> 't \<Rightarrow> stdin_event list \<Rightarrow> 't outcome" where
  "play_game sample now inputs =
     (case generate_number sample of
        Inl e \<Rightarrow> Crashed e
      | Inr secret \<Rightarrow>
          play_loop \<lparr>secret_number = secret, attempts = 0, start_time = now\<rparr> inputs)"

section \<open>Properties\<close>

subsection \<open>The two passes of \<^verbatim>\<open>evaluate_guess\<close>\<close>

lemma position_pass_eq:
  "position_pass zs (bulls, us, ug) =
     (bulls + int (length (filter (\<lambda>(x, y). x = y) zs)),
      us @ map fst (filter (\<lambda>(x, y). x \<noteq> y) zs),
      ug @ map snd (filter (\<lambda>(x, y). x \<noteq> y) zs))"
  by (induction zs arbitrary: bulls us ug) auto

lemma cow_pass_total:
  "\<exists>cows' us'. cow_pass ug (cows, us) = Inr (cows', us') \<and>
     cows' = cows + (int (length us) - int (length us')) \<and>
     length us' \<le> length us \<and>
     length us - length us' \<le> length ug \<and>
     (\<forall>d. count_list us' d = count_list us d - count_list ug d)"
proof (induction ug arbitrary: cows us)
  case Nil
  show ?case by simp
next
  case (Cons digit rest)
  show ?case
  proof (cases "digit \<in> set us")
    case True
    then have len: "length (remove1 digit us) = length us - 1" and pos: "0 < length us"
      by (auto simp add: length_remove1)
    from Cons.IH [of "cows + 1" "remove1 digit us"] obtain cows' us'
      where step: "cow_pass rest (cows + 1, remove1 digit us) = Inr (cows', us')"
        and c: "cows' = cows + 1 + (int (length (remove1 digit us)) - int (length us'))"
        and l1: "length us' \<le> length (remove1 digit us)"
        and l2: "length (remove1 digit us) - length us' \<le> length rest"
        and cnt: "\<forall>d. count_list us' d = count_list (remove1 digit us) d - count_list rest d"
      by blast
    have "cow_pass (digit # rest) (cows, us) = Inr (cows', us')"
      using True step by (simp add: list_remove_def)
    moreover have "cows' = cows + (int (length us) - int (length us'))"
      using c len pos by simp
    moreover have "length us' \<le> length us" using l1 len by simp
    moreover have "length us - length us' \<le> length (digit # rest)" using l2 len by simp
    moreover have "\<forall>d. count_list us' d = count_list us d - count_list (digit # rest) d"
      using cnt by simp
    ultimately show ?thesis by blast
  next
    case False
    from Cons.IH [of cows us] obtain cows' us'
      where step: "cow_pass rest (cows, us) = Inr (cows', us')"
        and c: "cows' = cows + (int (length us) - int (length us'))"
        and l1: "length us' \<le> length us"
        and l2: "length us - length us' \<le> length rest"
        and cnt: "\<forall>d. count_list us' d = count_list us d - count_list rest d"
      by blast
    have "cow_pass (digit # rest) (cows, us) = Inr (cows', us')"
      using False step by simp
    moreover have "length us - length us' \<le> length (digit # rest)" using l2 by simp
    moreover have "\<forall>d. count_list us' d = count_list us d - count_list (digit # rest) d"
      using cnt False by simp
    ultimately show ?thesis using c l1 by blast
  qed
qed

lemma filter_split_length:
  "length (filter (\<lambda>(x, y). x = y) zs) + length (filter (\<lambda>(x, y). x \<noteq> y) zs) = length zs"
  by (induction zs) auto

lemma all_match_iff:
  "length secret = length guess \<Longrightarrow>
   length (filter (\<lambda>(x, y). x = y) (zip secret guess)) = length secret \<longleftrightarrow> guess = secret"
proof (induction secret guess rule: list_induct2)
  case Nil
  show ?case by simp
next
  case (Cons x xs y ys)
  have le: "length (filter (\<lambda>(x, y). x = y) (zip xs ys)) \<le> length xs"
    using length_filter_le [of _ "zip xs ys"] by (simp add: Cons.hyps)
  show ?case using Cons.IH le by auto
qed

lemma count_unmatched_snd:
  "(d, d) \<notin> set zs \<Longrightarrow>
   count_list (map snd (filter (\<lambda>(x, y). x \<noteq> y) zs)) d = count_list (map snd zs) d"
  by (induction zs) auto

lemma count_unmatched_fst:
  "(d, d) \<notin> set zs \<Longrightarrow>
   count_list (map fst (filter (\<lambda>(x, y). x \<noteq> y) zs)) d = count_list (map fst zs) d"
  by (induction zs) auto

lemma count_unmatched_fst_le:
  "count_list (map fst (filter (\<lambda>(x, y). x \<noteq> y) zs)) d \<le> count_list (map fst zs) d"
  by (induction zs) auto

lemma count_list_distinct_le: "distinct xs \<Longrightarrow> count_list xs d \<le> 1"
  by (induction xs) auto

lemma count_list_distinct_mem: "distinct xs \<Longrightarrow> d \<in> set xs \<Longrightarrow> count_list xs d = 1"
  by (induction xs) auto

lemma no_match_notin_zip:
  "length guess = length secret \<Longrightarrow>
   \<forall>i<length secret. secret ! i = d \<longrightarrow> guess ! i \<noteq> d \<Longrightarrow>
   (d, d) \<notin> set (zip secret guess)"
  by (auto simp: set_zip)

subsection \<open>Scores\<close>

text \<open>
  C1: for a secret and a guess of the same length \<open>N\<close>, \<open>evaluate_guess\<close> returns a pair
  \<open>(bulls, cows)\<close> with both counts non-negative and \<open>bulls + cows \<le> N\<close>; \<open>bulls = N\<close>
  holds exactly when the guess equals the secret, and then the result is \<open>(N, 0)\<close>.
\<close>

theorem evaluate_guess_score:
  assumes "length secret = length guess"
  shows "\<exists>bulls cows. evaluate_guess secret guess = Inr (bulls, cows) \<and>
           0 \<le> bulls \<and> 0 \<le> cows \<and> bulls + cows \<le> int (length secret) \<and>
           (bulls = int (length secret) \<longleftrightarrow> guess = secret) \<and>
           (guess = secret \<longrightarrow> (bulls, cows) = (int (length secret), 0))"
proof -
  let ?zs = "zip secret guess"
  let ?m = "length (filter (\<lambda>(x, y). x = y) ?zs)"
  let ?us = "map fst (filter (\<lambda>(x, y). x \<noteq> y) ?zs)"
  let ?ug = "map snd (filter (\<lambda>(x, y). x \<noteq> y) ?zs)"
  have pp: "position_pass ?zs (0, [], []) = (int ?m, ?us, ?ug)"
    by (simp add: position_pass_eq)
  obtain cows us' where cp: "cow_pass ?ug (0, ?us) = Inr (cows, us')"
    and c: "cows = 0 + (int (length ?us) - int (length us'))"
    and l1: "length us' \<le> length ?us"
    and l2: "length ?us - length us' \<le> length ?ug"
    using cow_pass_total [of ?ug 0 ?us] by blast
  have ev: "evaluate_guess secret guess = Inr (int ?m, cows)"
    by (simp add: evaluate_guess_def pp cp)
  have split: "?m + length ?ug = length secret"
    using filter_split_length [of ?zs] assms by simp
  have c0: "0 \<le> cows" using c l1 by simp
  have cle: "cows \<le> int (length ?ug)" using c l1 l2 by simp
  have sum: "int ?m + cows \<le> int (length secret)" using cle split by linarith
  have iff: "int ?m = int (length secret) \<longleftrightarrow> guess = secret"
    using all_match_iff [OF assms] by simp
  have win: "guess = secret \<longrightarrow> cows = 0"
  proof
    assume "guess = secret"
    then have "?m = length secret" using all_match_iff [OF assms] by simp
    then have "length ?ug = 0" using split by simp
    then show "cows = 0" using c0 cle by simp
  qed
  show ?thesis using ev c0 sum iff win by auto
qed

theorem evaluate_guess_score_witness:
  "length [1, 2, 3, 4 :: int] = length [1, 2, 4, 3 :: int] \<and>
   (\<exists>bulls cows. evaluate_guess [1, 2, 3, 4] [1, 2, 4, 3] = Inr (bulls, cows) \<and>
      0 \<le> bulls \<and> 0 \<le> cows \<and> bulls + cows \<le> 4 \<and> bulls \<noteq> 4)"
  using evaluate_guess_score [of "[1, 2, 3, 4]" "[1, 2, 4, 3]"] by auto

text \<open>
  C2: the three scenarios of the specification: secret 1234 against guess 1243 scores two
  bulls and two cows, against 4321 no bull and four cows, and 5678 against itself four
  bulls and no cow.
\<close>

theorem evaluate_guess_scenarios:
  "evaluate_guess [1, 2, 3, 4] [1, 2, 4, 3] = Inr (2, 2) \<and>
   evaluate_guess [1, 2, 3, 4] [4, 3, 2, 1] = Inr (0, 4) \<and>
   evaluate_guess [5, 6, 7, 8] [5, 6, 7, 8] = Inr (4, 0)"
  by (simp add: evaluate_guess_def list_remove_def)

text \<open>
  C3: for a secret with pairwise distinct digits and a guess of the same length (which may
  repeat digits), the cows credited for a digit value are the smaller of its occurrences
  in the unmatched-guess list and in the unmatched-secret list, hence at most one; a
  digit that is in the secret, occurs twice or more in the guess and is at no matching
  position is credited exactly one cow. The cows returned are the removals from the
  unmatched-secret list.
\<close>

theorem cow_credit_once:
  assumes "distinct secret" and "length guess = length secret"
  shows "\<exists>bulls us ug cows us'.
           position_pass (zip secret guess) (0, [], []) = (bulls, us, ug) \<and>
           cow_pass ug (0, us) = Inr (cows, us') \<and>
           evaluate_guess secret guess = Inr (bulls, cows) \<and>
           cows = int (length us) - int (length us') \<and>
           (\<forall>d. removed d us us' = min (count_list ug d) (count_list us d) \<and>
                removed d us us' \<le> 1) \<and>
           (\<forall>d. d \<in> set secret \<and> 2 \<le> count_list guess d \<and>
                (\<forall>i<length secret. secret ! i = d \<longrightarrow> guess ! i \<noteq> d)
                \<longrightarrow> removed d us us' = 1)"
proof -
  let ?zs = "zip secret guess"
  let ?m = "length (filter (\<lambda>(x, y). x = y) ?zs)"
  let ?us = "map fst (filter (\<lambda>(x, y). x \<noteq> y) ?zs)"
  let ?ug = "map snd (filter (\<lambda>(x, y). x \<noteq> y) ?zs)"
  have pp: "position_pass ?zs (0, [], []) = (int ?m, ?us, ?ug)"
    by (simp add: position_pass_eq)
  obtain cows us' where cp: "cow_pass ?ug (0, ?us) = Inr (cows, us')"
    and c: "cows = 0 + (int (length ?us) - int (length us'))"
    and cnt: "\<forall>d. count_list us' d = count_list ?us d - count_list ?ug d"
    using cow_pass_total [of ?ug 0 ?us] by blast
  have ev: "evaluate_guess secret guess = Inr (int ?m, cows)"
    by (simp add: evaluate_guess_def pp cp)
  have fst_zs: "map fst ?zs = secret" and snd_zs: "map snd ?zs = guess"
    using assms(2) by simp_all
  have rem: "removed d ?us us' = min (count_list ?ug d) (count_list ?us d)" for d
    using cnt by (simp add: removed_def)
  have us_le: "count_list ?us d \<le> 1" for d
    using count_unmatched_fst_le [of ?zs d] count_list_distinct_le [OF assms(1), of d]
    by (simp add: fst_zs)
  have le1: "removed d ?us us' \<le> 1" for d
    using rem [of d] us_le [of d] by simp
  have one: "removed d ?us us' = 1"
    if d: "d \<in> set secret" "2 \<le> count_list guess d"
      "\<forall>i<length secret. secret ! i = d \<longrightarrow> guess ! i \<noteq> d" for d
  proof -
    have nz: "(d, d) \<notin> set ?zs" using no_match_notin_zip [OF assms(2) d(3)] .
    have "count_list ?us d = 1"
      using count_unmatched_fst [OF nz] count_list_distinct_mem [OF assms(1) d(1)]
      by (simp add: fst_zs)
    moreover have "count_list ?ug d = count_list guess d"
      using count_unmatched_snd [OF nz] by (simp add: snd_zs)
    ultimately show ?thesis using rem [of d] d(2) by simp
  qed
  show ?thesis
    apply (rule exI [of _ "int ?m"], rule exI [of _ ?us], rule exI [of _ ?ug],
           rule exI [of _ cows], rule exI [of _ us'])
    using pp cp ev c rem le1 one by simp
qed

theorem cow_credit_once_witness:
  "distinct [1, 2, 3, 4 :: int] \<and> length [5, 1, 1, 6 :: int] = length [1, 2, 3, 4 :: int] \<and>
   (1 :: int) \<in> set [1, 2, 3, 4] \<and> 2 \<le> count_list [5, 1, 1, 6 :: int] 1 \<and>
   evaluate_guess [1, 2, 3, 4] [5, 1, 1, 6] = Inr (0, 1) \<and>
   (\<exists>us ug cows us'.
      position_pass (zip [1, 2, 3, 4] [5, 1, 1, 6]) (0, [], []) = (0, us, ug) \<and>
      cow_pass ug (0, us) = Inr (cows, us') \<and> removed 1 us us' = 1)"
  using cow_credit_once [of "[1, 2, 3, 4]" "[5, 1, 1, 6]"]
  by (simp add: evaluate_guess_def list_remove_def removed_def)

text \<open>
  C6 (as amended): for a secret and a guess of different lengths \<open>evaluate_guess\<close> raises
  nothing: it returns the score of the two lists cut to the length of the shorter one.
\<close>

theorem evaluate_guess_truncates:
  "\<exists>bulls cows.
     evaluate_guess secret guess = Inr (bulls, cows) \<and>
     evaluate_guess (take (min (length secret) (length guess)) secret)
                    (take (min (length secret) (length guess)) guess) = Inr (bulls, cows)"
proof -
  let ?n = "min (length secret) (length guess)"
  have "zip (take ?n secret) (take ?n guess) = take ?n (zip secret guess)"
    by (simp add: take_zip)
  then have z: "zip (take ?n secret) (take ?n guess) = zip secret guess"
    by simp
  obtain bulls us ug where pp: "position_pass (zip secret guess) (0, [], []) = (bulls, us, ug)"
    by (cases "position_pass (zip secret guess) (0, [], [])") auto
  obtain cows us' where cp: "cow_pass ug (0, us) = Inr (cows, us')"
    using cow_pass_total [of ug 0 us] by blast
  have "evaluate_guess secret guess = Inr (bulls, cows)"
    by (simp add: evaluate_guess_def pp cp)
  moreover have "evaluate_guess (take ?n secret) (take ?n guess) = Inr (bulls, cows)"
    unfolding evaluate_guess_def z by (simp add: pp cp)
  ultimately show ?thesis by blast
qed

text \<open>
  No \<^verbatim>\<open>LengthMismatchError\<close> is raised: with a secret of four digits and a guess of
  three, \<open>evaluate_guess\<close> returns the score of the first three positions.
\<close>

theorem evaluate_guess_length_mismatch_returns:
  "evaluate_guess [1, 2, 3, 4] [1, 2, 3] = Inr (3, 0)"
  by (simp add: evaluate_guess_def)

subsection \<open>\<^verbatim>\<open>pluralize\<close> and the empty input\<close>

lemma str_int_4: "str_int 4 = ''4''"
  by (simp add: str_int_def str_nat.simps)

text \<open>
  C9: \<open>pluralize\<close> returns the singular word when \<open>count = 1\<close> and the word followed by
  the suffix otherwise, after the count and a space exactly when \<open>show_count\<close> holds. With
  the defaults written out: \<open>pluralize(1, "bull")\<close> is \<open>1 bull\<close>, \<open>pluralize(2, "bull")\<close>
  is \<open>2 bulls\<close>, and \<open>pluralize(3, "attempt", show_count=False)\<close> is \<open>attempts\<close>.
\<close>

theorem pluralize_forms:
  "pluralize count singular suffix show_count =
     (if show_count then str_int count @ '' '' else []) @
     (if count = 1 then singular else singular @ suffix) \<and>
   pluralize 1 ''bull'' ''s'' True = ''1 bull'' \<and>
   pluralize 2 ''bull'' ''s'' True = ''2 bulls'' \<and>
   pluralize 3 ''attempt'' ''s'' False = ''attempts''"
  by (simp add: pluralize_def str_int_def str_nat.simps)

text \<open>
  C10: the empty input is invalid with exactly two messages, the digits-only one and the
  wrong-length one; the leading-zero test is guarded by non-emptiness and the uniqueness
  test passes.
\<close>

theorem is_valid_input_empty:
  "is_valid_input [] =
     (False, [''Input must contain only digits.'', ''Input must be 4 digits long.''])"
  by (simp add: is_valid_input_def isdigit_def DIGIT_COUNT_def str_int_def str_nat.simps)

subsection \<open>\<^verbatim>\<open>generate_number\<close>\<close>

lemma swap_first_nonzero_scan:
  "b \<le> length digits \<Longrightarrow>
   (\<exists>i. a \<le> i \<and> i < b \<and> digits ! i \<noteq> 0 \<and> (\<forall>j. a \<le> j \<and> j < i \<longrightarrow> digits ! j = 0) \<and>
        swap_first_nonzero [a..<b] digits = Inr (digits[0 := digits ! i, i := digits ! 0])) \<or>
   ((\<forall>j. a \<le> j \<and> j < b \<longrightarrow> digits ! j = 0) \<and> swap_first_nonzero [a..<b] digits = Inr digits)"
proof (induction "b - a" arbitrary: a)
  case 0
  then show ?case by simp
next
  case (Suc n)
  then have ab: "a < b" and n: "n = b - Suc a" by simp_all
  have unfold: "[a..<b] = a # [Suc a..<b]" using ab by (simp add: upt_conv_Cons)
  show ?case
  proof (cases "digits ! a = 0")
    case False
    have "swap_first_nonzero [a..<b] digits = Inr (digits[0 := digits ! a, a := digits ! 0])"
      using False ab Suc.prems by (simp add: unfold)
    then show ?thesis using False ab by auto
  next
    case True
    have step: "swap_first_nonzero [a..<b] digits = swap_first_nonzero [Suc a..<b] digits"
      using True ab Suc.prems by (simp add: unfold)
    have zero: "\<And>j. a \<le> j \<Longrightarrow> j < Suc a \<Longrightarrow> digits ! j = 0"
      using True by (simp add: le_less_Suc_eq)
    from Suc.hyps(1) [OF n Suc.prems] show ?thesis
    proof
      assume "\<exists>i. Suc a \<le> i \<and> i < b \<and> digits ! i \<noteq> 0 \<and>
                (\<forall>j. Suc a \<le> j \<and> j < i \<longrightarrow> digits ! j = 0) \<and>
                swap_first_nonzero [Suc a..<b] digits = Inr (digits[0 := digits ! i, i := digits ! 0])"
      then obtain i where i: "Suc a \<le> i" "i < b" "digits ! i \<noteq> 0"
        "\<forall>j. Suc a \<le> j \<and> j < i \<longrightarrow> digits ! j = 0"
        "swap_first_nonzero [Suc a..<b] digits = Inr (digits[0 := digits ! i, i := digits ! 0])"
        by blast
      have "\<forall>j. a \<le> j \<and> j < i \<longrightarrow> digits ! j = 0"
      proof (intro allI impI)
        fix j assume j: "a \<le> j \<and> j < i"
        show "digits ! j = 0"
        proof (cases "j = a")
          case True then show ?thesis using \<open>digits ! a = 0\<close> by simp
        next
          case False then show ?thesis using j i(4) by simp
        qed
      qed
      then show ?thesis using i step by (intro disjI1 exI [of _ i]) simp
    next
      assume r: "(\<forall>j. Suc a \<le> j \<and> j < b \<longrightarrow> digits ! j = 0) \<and>
                 swap_first_nonzero [Suc a..<b] digits = Inr digits"
      have "\<forall>j. a \<le> j \<and> j < b \<longrightarrow> digits ! j = 0"
      proof (intro allI impI)
        fix j assume j: "a \<le> j \<and> j < b"
        show "digits ! j = 0"
        proof (cases "j = a")
          case True then show ?thesis using \<open>digits ! a = 0\<close> by simp
        next
          case False then show ?thesis using j r by simp
        qed
      qed
      then show ?thesis using r step by simp
    qed
  qed
qed

text \<open>
  C5: for every draw of four distinct digits between 0 and 9, \<open>generate_number\<close> returns
  a secret of length 4 with pairwise distinct digits between 0 and 9 whose first digit is
  not 0. A draw whose first digit is not 0 is returned as it is; otherwise the first digit
  is swapped with the first non-zero digit at positions 1 to 3, and the digits stay the
  same set.
\<close>

theorem generate_number_secret:
  assumes len: "length sample = DIGIT_COUNT"
    and dist: "distinct sample"
    and range: "\<forall>d\<in>set sample. 0 \<le> d \<and> d \<le> 9"
  shows "\<exists>secret. generate_number sample = Inr secret \<and>
           length secret = 4 \<and> distinct secret \<and> (\<forall>d\<in>set secret. 0 \<le> d \<and> d \<le> 9) \<and>
           secret ! 0 \<noteq> 0 \<and> set secret = set sample \<and>
           (sample ! 0 \<noteq> 0 \<longrightarrow> secret = sample) \<and>
           (sample ! 0 = 0 \<longrightarrow>
              (\<exists>i. 1 \<le> i \<and> i < DIGIT_COUNT \<and> sample ! i \<noteq> 0 \<and>
                   (\<forall>j. 1 \<le> j \<and> j < i \<longrightarrow> sample ! j = 0) \<and>
                   secret = sample[0 := sample ! i, i := sample ! 0]))"
proof (cases "sample ! 0 = 0")
  case False
  have "generate_number sample = Inr sample"
    using False len by (auto simp: generate_number_def DIGIT_COUNT_def)
  then show ?thesis using False len dist range by (simp add: DIGIT_COUNT_def)
next
  case True
  have l4: "length sample = 4" using len by (simp add: DIGIT_COUNT_def)
  have gen: "generate_number sample = swap_first_nonzero [1..<DIGIT_COUNT] sample"
    using True l4 by (auto simp: generate_number_def)
  have "sample ! 1 \<noteq> sample ! 0"
    using dist l4 by (simp add: nth_eq_iff_index_eq)
  then have nz: "sample ! 1 \<noteq> 0" using True by simp
  from swap_first_nonzero_scan [of DIGIT_COUNT sample 1] len
  have "(\<exists>i. 1 \<le> i \<and> i < DIGIT_COUNT \<and> sample ! i \<noteq> 0 \<and>
             (\<forall>j. 1 \<le> j \<and> j < i \<longrightarrow> sample ! j = 0) \<and>
             swap_first_nonzero [1..<DIGIT_COUNT] sample = Inr (sample[0 := sample ! i, i := sample ! 0])) \<or>
        ((\<forall>j. 1 \<le> j \<and> j < DIGIT_COUNT \<longrightarrow> sample ! j = 0) \<and>
          swap_first_nonzero [1..<DIGIT_COUNT] sample = Inr sample)"
    by simp
  moreover have "\<not> (\<forall>j. 1 \<le> j \<and> j < DIGIT_COUNT \<longrightarrow> sample ! j = 0)"
    using nz by (auto simp: DIGIT_COUNT_def)
  ultimately obtain i where i: "1 \<le> i" "i < DIGIT_COUNT" "sample ! i \<noteq> 0"
    "\<forall>j. 1 \<le> j \<and> j < i \<longrightarrow> sample ! j = 0"
    "swap_first_nonzero [1..<DIGIT_COUNT] sample = Inr (sample[0 := sample ! i, i := sample ! 0])"
    by blast
  let ?secret = "sample[0 := sample ! i, i := sample ! 0]"
  have il: "i < length sample" and ol: "0 < length sample" using i(2) len by simp_all
  have "generate_number sample = Inr ?secret" using gen i(5) by simp
  moreover have "length ?secret = 4" using l4 by simp
  moreover have "distinct ?secret" using dist distinct_swap [OF ol il] by simp
  moreover have st: "set ?secret = set sample" using set_swap [OF ol il] by simp
  moreover have "\<forall>d\<in>set ?secret. 0 \<le> d \<and> d \<le> 9" using range st by simp
  moreover have "?secret ! 0 \<noteq> 0" using i(1,3) il ol by (simp add: nth_list_update)
  ultimately show ?thesis using True i by (intro exI [of _ ?secret]) auto
qed

theorem generate_number_secret_witness:
  "length [0, 7, 3, 9 :: int] = DIGIT_COUNT \<and> distinct [0, 7, 3, 9 :: int] \<and>
   generate_number [0, 7, 3, 9] = Inr [7, 0, 3, 9] \<and>
   (\<exists>secret. generate_number [0, 7, 3, 9] = Inr secret \<and> length secret = 4 \<and>
      distinct secret \<and> secret ! 0 \<noteq> 0 \<and> set secret = set [0, 7, 3, 9])"
  using generate_number_secret [of "[0, 7, 3, 9]"]
  by (simp add: DIGIT_COUNT_def generate_number_def upt_conv_Cons)

subsection \<open>\<^verbatim>\<open>is_valid_input\<close>\<close>

lemma isdigit_decimal:
  "\<forall>c\<in>set s. isdigit_chr c \<longrightarrow> isdecimal_chr c \<Longrightarrow>
   isdigit s \<longleftrightarrow> s \<noteq> [] \<and> list_all isdecimal_chr s"
  by (auto simp: isdigit_def isdigit_chr_def list_all_iff)

lemma card_set_neq_length: "card (set s) \<noteq> length s \<longleftrightarrow> \<not> distinct s"
  using card_distinct [of s] distinct_card [of s] by blast

lemma first_char: "s \<noteq> [] \<Longrightarrow> s ! 0 = hd s"
  by (simp add: hd_conv_nth)

text \<open>
  C4 (as amended): for every input in which each character that \<^verbatim>\<open>str.isdigit\<close> accepts is
  one of \<^verbatim>\<open>0\<close> to \<^verbatim>\<open>9\<close> (every ASCII input is such), the validator returns valid exactly
  when the four checks hold, where the digit check is that the input is not empty and
  every character is a decimal digit; the others are length 4, first character not
  \<^verbatim>\<open>0\<close>, and pairwise distinct characters. When invalid it returns one message for each
  failed check, in this order. The inputs \<^verbatim>\<open>12a3\<close>, \<^verbatim>\<open>123\<close>, \<^verbatim>\<open>0123\<close> and \<^verbatim>\<open>1123\<close> are each
  rejected with the one message of their violation.
\<close>

theorem is_valid_input_checks:
  assumes "\<forall>c\<in>set user_input. isdigit_chr c \<longrightarrow> isdecimal_chr c"
  shows "is_valid_input user_input =
     (let a = (user_input \<noteq> [] \<and> list_all isdecimal_chr user_input);
          b = (length user_input = 4);
          c = (\<not> (user_input \<noteq> [] \<and> hd user_input = CHR ''0''));
          d = distinct user_input
      in (a \<and> b \<and> c \<and> d,
          (if a then [] else [''Input must contain only digits.'']) @
          (if b then [] else [''Input must be 4 digits long.'']) @
          (if c then [] else [''Number cannot start with zero.'']) @
          (if d then [] else [''Digits must be unique.''])))
   \<and> is_valid_input ''12a3'' = (False, [''Input must contain only digits.''])
   \<and> is_valid_input ''123'' = (False, [''Input must be 4 digits long.''])
   \<and> is_valid_input ''0123'' = (False, [''Number cannot start with zero.''])
   \<and> is_valid_input ''1123'' = (False, [''Digits must be unique.''])"
proof -
  have dg: "isdigit user_input \<longleftrightarrow> user_input \<noteq> [] \<and> list_all isdecimal_chr user_input"
    using assms by (rule isdigit_decimal)
  have four: "DIGIT_COUNT = 4" by (simp add: DIGIT_COUNT_def)
  have general: "is_valid_input user_input =
     (let a = (user_input \<noteq> [] \<and> list_all isdecimal_chr user_input);
          b = (length user_input = 4);
          c = (\<not> (user_input \<noteq> [] \<and> hd user_input = CHR ''0''));
          d = distinct user_input
      in (a \<and> b \<and> c \<and> d,
          (if a then [] else [''Input must contain only digits.'']) @
          (if b then [] else [''Input must be 4 digits long.'']) @
          (if c then [] else [''Number cannot start with zero.'']) @
          (if d then [] else [''Digits must be unique.''])))"
  proof (cases "user_input = []")
    case True
    then show ?thesis
      by (simp add: is_valid_input_def isdigit_def str_int_4 four)
  next
    case False
    then show ?thesis
      unfolding is_valid_input_def Let_def dg card_set_neq_length four
      by (simp add: first_char str_int_4)
  qed
  have e1: "is_valid_input ''12a3'' = (False, [''Input must contain only digits.''])"
    by (simp add: is_valid_input_def isdigit_def isdigit_chr_def isdecimal_chr_def
        DIGIT_COUNT_def str_int_def str_nat.simps)
  have e2: "is_valid_input ''123'' = (False, [''Input must be 4 digits long.''])"
    by (simp add: is_valid_input_def isdigit_def isdigit_chr_def isdecimal_chr_def
        DIGIT_COUNT_def str_int_def str_nat.simps)
  have e3: "is_valid_input ''0123'' = (False, [''Number cannot start with zero.''])"
    by (simp add: is_valid_input_def isdigit_def isdigit_chr_def isdecimal_chr_def
        DIGIT_COUNT_def str_int_def str_nat.simps)
  have e4: "is_valid_input ''1123'' = (False, [''Digits must be unique.''])"
    by (simp add: is_valid_input_def isdigit_def isdigit_chr_def isdecimal_chr_def
        DIGIT_COUNT_def str_int_def str_nat.simps)
  show ?thesis using general e1 e2 e3 e4 by blast
qed

theorem is_valid_input_checks_witness:
  "list_all (\<lambda>c. \<not> isdigit_chr c \<or> isdecimal_chr c) ''1234'' \<and>
   is_valid_input ''1234'' = (True, []) \<and>
   list_all (\<lambda>c. \<not> isdigit_chr c \<or> isdecimal_chr c) ''0a0'' \<and>
   is_valid_input ''0a0'' =
     (False, [''Input must contain only digits.'', ''Input must be 4 digits long.'',
              ''Number cannot start with zero.'', ''Digits must be unique.''])"
  using is_valid_input_checks [of "''1234''"] is_valid_input_checks [of "''0a0''"]
  by (simp add: isdigit_chr_def isdecimal_chr_def)

text \<open>
  The four checks as the specification words them differ from the code at two inputs. On
  the empty input every character is a decimal digit, so only the length check of the
  specification fails, but the code reports the digit message too. On \<^verbatim>\<open>12\<close>, U+00B3, \<^verbatim>\<open>4\<close> the third character is not a
  decimal digit, but the code returns valid.
\<close>

theorem is_valid_input_not_spec_validate:
  "is_valid_input [] =
     (False, [''Input must contain only digits.'', ''Input must be 4 digits long.'']) \<and>
   spec_validate [] DIGIT_COUNT = (False, [''Input must be 4 digits long.'']) \<and>
   is_valid_input [CHR ''1'', CHR ''2'', CHR 0xB3, CHR ''4''] = (True, []) \<and>
   spec_validate [CHR ''1'', CHR ''2'', CHR 0xB3, CHR ''4''] DIGIT_COUNT =
     (False, [''Input must contain only digits.''])"
  by (simp add: is_valid_input_def spec_validate_def isdigit_def isdigit_chr_def
      isdecimal_chr_def DIGIT_COUNT_def str_int_def str_nat.simps)

subsection \<open>\<^verbatim>\<open>evaluate_guess\<close> leaves its arguments alone\<close>

text \<open>
  With the two working lists at references different from each other and from \<open>s\<close> and
  \<open>g\<close>, and fuel for the remaining positions, the loops on the store compute what the
  passes on values compute, and write to the two working lists only.
\<close>

lemma position_loop_run:
  assumes "s < length h" "g < length h" "us < length h" "ug < length h"
    and "us \<noteq> s" "us \<noteq> g" "ug \<noteq> s" "ug \<noteq> g" "us \<noteq> ug"
    and "min (length (h ! s)) (length (h ! g)) - i < fuel"
    and "position_pass (drop i (zip (h ! s) (h ! g))) (bulls, h ! us, h ! ug) = (bulls', us', ug')"
  shows "position_loop fuel h s g us ug i bulls = Some (h[us := us', ug := ug'], bulls')"
  using assms
proof (induction fuel arbitrary: h i bulls)
  case 0
  then show ?case by simp
next
  case (Suc fuel)
  let ?zs = "zip (h ! s) (h ! g)"
  show ?case
  proof (cases "i < length (h ! s) \<and> i < length (h ! g)")
    case False
    then have "drop i ?zs = []" by auto
    then have "bulls' = bulls" "us' = h ! us" "ug' = h ! ug"
      using Suc.prems(11) by simp_all
    then show ?thesis using False by auto
  next
    case True
    then have iz: "i < length ?zs" by simp
    have dr: "drop i ?zs = (h ! s ! i, h ! g ! i) # drop (Suc i) ?zs"
      using Cons_nth_drop_Suc [OF iz, symmetric] True by simp
    have fuel: "min (length (h ! s)) (length (h ! g)) - Suc i < fuel"
      using Suc.prems(10) True by arith
    show ?thesis
    proof (cases "h ! s ! i = h ! g ! i")
      case eq: True
      have pp: "position_pass (drop (Suc i) ?zs) (bulls + 1, h ! us, h ! ug) = (bulls', us', ug')"
        using Suc.prems(11) eq by (simp add: dr)
      have "position_loop fuel h s g us ug (Suc i) (bulls + 1) = Some (h[us := us', ug := ug'], bulls')"
        using Suc.IH [OF Suc.prems(1-9) fuel pp] .
      then show ?thesis using True eq by simp
    next
      case ne: False
      let ?h2 = "heap_append (heap_append h us (h ! s ! i)) ug (h ! g ! i)"
      have h2: "?h2 = h[us := h ! us @ [h ! s ! i], ug := h ! ug @ [h ! g ! i]]"
        using Suc.prems(9) by (simp add: heap_append_def)
      have rd: "?h2 ! s = h ! s" "?h2 ! g = h ! g"
        "?h2 ! us = h ! us @ [h ! s ! i]" "?h2 ! ug = h ! ug @ [h ! g ! i]"
        "length ?h2 = length h"
        using Suc.prems(1-9) by (simp_all add: h2)
      have pp: "position_pass (drop (Suc i) (zip (?h2 ! s) (?h2 ! g))) (bulls, ?h2 ! us, ?h2 ! ug)
                  = (bulls', us', ug')"
        using Suc.prems(11) ne unfolding rd by (simp add: dr)
      have fuel2: "min (length (?h2 ! s)) (length (?h2 ! g)) - Suc i < fuel"
        using fuel unfolding rd .
      have "position_loop fuel ?h2 s g us ug (Suc i) bulls = Some (?h2[us := us', ug := ug'], bulls')"
        using Suc.IH [of ?h2 "Suc i" bulls] Suc.prems(1-9) fuel2 pp rd(5) by simp
      moreover have "?h2[us := us', ug := ug'] = h[us := us', ug := ug']"
        using Suc.prems(9) by (simp add: h2 list_update_swap [of us ug])
      ultimately show ?thesis using True ne by (simp add: Let_def)
    qed
  qed
qed

lemma cow_loop_run:
  assumes "us < length h" "ug < length h" "us \<noteq> ug"
    and "length (h ! ug) - j < fuel"
    and "cow_pass (drop j (h ! ug)) (cows, h ! us) = Inr (cows', us')"
  shows "cow_loop fuel h us ug j cows = Some (Inr (h[us := us'], cows'))"
  using assms
proof (induction fuel arbitrary: h j cows)
  case 0
  then show ?case by simp
next
  case (Suc fuel)
  show ?case
  proof (cases "j < length (h ! ug)")
    case False
    then have "cows' = cows" "us' = h ! us" using Suc.prems(5) by simp_all
    then show ?thesis using False by simp
  next
    case True
    have dr: "drop j (h ! ug) = h ! ug ! j # drop (Suc j) (h ! ug)"
      using Cons_nth_drop_Suc [OF True, symmetric] .
    have fuel: "length (h ! ug) - Suc j < fuel" using Suc.prems(4) True by simp
    show ?thesis
    proof (cases "h ! ug ! j \<in> set (h ! us)")
      case False
      have cp: "cow_pass (drop (Suc j) (h ! ug)) (cows, h ! us) = Inr (cows', us')"
        using Suc.prems(5) False by (simp add: dr)
      have "cow_loop fuel h us ug (Suc j) cows = Some (Inr (h[us := us'], cows'))"
        using Suc.IH [OF Suc.prems(1-3) fuel cp] .
      then show ?thesis using True False by simp
    next
      case mem: True
      let ?h2 = "h[us := remove1 (h ! ug ! j) (h ! us)]"
      have hr: "heap_remove h us (h ! ug ! j) = Inr ?h2"
        using mem by (simp add: heap_remove_def list_remove_def)
      have rd: "?h2 ! ug = h ! ug" "?h2 ! us = remove1 (h ! ug ! j) (h ! us)"
        "length ?h2 = length h"
        using Suc.prems(1-3) by simp_all
      have cp: "cow_pass (drop (Suc j) (?h2 ! ug)) (cows + 1, ?h2 ! us) = Inr (cows', us')"
        using Suc.prems(5) mem unfolding rd by (simp add: dr list_remove_def)
      have fuel2: "length (?h2 ! ug) - Suc j < fuel" using fuel unfolding rd .
      have "cow_loop fuel ?h2 us ug (Suc j) (cows + 1) = Some (Inr (?h2[us := us'], cows'))"
        using Suc.IH [of ?h2 "Suc j" "cows + 1"] Suc.prems(1-3) fuel2 cp rd(3) by simp
      then show ?thesis using True mem hr by simp
    qed
  qed
qed

text \<open>
  C8: \<open>evaluate_guess\<close> does not mutate its inputs. On every store and for all references
  \<open>secret\<close> and \<open>guess\<close> into it (the same object or not), the call returns, with the
  score computed on values, and in the store it leaves behind every list that existed
  before the call, the secret and the guess among them, has its elements unchanged. Any fuel
  above the length of the shorter list is enough.
\<close>

theorem evaluate_guess_heap_frame:
  assumes "secret < length h" and "guess < length h"
    and "min (length (h ! secret)) (length (h ! guess)) < fuel"
  shows "\<exists>h' bulls cows.
           evaluate_guess_heap fuel h secret guess = Some (Inr (h', (bulls, cows))) \<and>
           evaluate_guess (h ! secret) (h ! guess) = Inr (bulls, cows) \<and>
           h' ! secret = h ! secret \<and> h' ! guess = h ! guess \<and>
           (\<forall>a<length h. h' ! a = h ! a)"
proof -
  let ?us = "length h" and ?ug = "Suc (length h)"
  let ?h2 = "h @ [[], []]"
  let ?zs = "zip (h ! secret) (h ! guess)"
  obtain bulls U G where pp: "position_pass ?zs (0, [], []) = (bulls, U, G)"
    by (cases "position_pass ?zs (0, [], [])") auto
  obtain cows us' where cp: "cow_pass G (0, U) = Inr (cows, us')"
    using cow_pass_total [of G 0 U] by blast
  have G: "G = map snd (filter (\<lambda>(x, y). x \<noteq> y) ?zs)"
    using pp by (simp add: position_pass_eq)
  have lenG: "length G \<le> min (length (h ! secret)) (length (h ! guess))"
    using length_filter_le [of "\<lambda>(x, y). x \<noteq> y" ?zs] by (simp add: G)
  have rd: "?h2 ! secret = h ! secret" "?h2 ! guess = h ! guess"
    "?h2 ! ?us = []" "?h2 ! ?ug = []" "length ?h2 = Suc (Suc (length h))"
    using assms(1,2) by (simp_all add: nth_append)
  let ?h3 = "?h2[?us := U, ?ug := G]"
  have pl: "position_loop fuel ?h2 secret guess ?us ?ug 0 0 = Some (?h3, bulls)"
  proof (rule position_loop_run)
    show "position_pass (drop 0 (zip (?h2 ! secret) (?h2 ! guess))) (0, ?h2 ! ?us, ?h2 ! ?ug)
            = (bulls, U, G)"
      unfolding rd using pp by simp
    show "min (length (?h2 ! secret)) (length (?h2 ! guess)) - 0 < fuel"
      unfolding rd using assms(3) by simp
  qed (use assms(1,2) in simp_all)
  have rd3: "?h3 ! ?ug = G" "?h3 ! ?us = U" "length ?h3 = Suc (Suc (length h))"
    by (simp_all add: nth_append)
  let ?h4 = "?h3[?us := us']"
  have cl: "cow_loop fuel ?h3 ?us ?ug 0 0 = Some (Inr (?h4, cows))"
  proof (rule cow_loop_run)
    show "cow_pass (drop 0 (?h3 ! ?ug)) (0, ?h3 ! ?us) = Inr (cows, us')"
      unfolding rd3 using cp by simp
    show "length (?h3 ! ?ug) - 0 < fuel"
      unfolding rd3 using lenG assms(3) by linarith
  qed simp_all
  have n1: "heap_new_list h = (h @ [[]], ?us)"
    and n2: "heap_new_list (h @ [[]]) = (?h2, ?ug)"
    by (simp_all add: heap_new_list_def)
  have ev: "evaluate_guess_heap fuel h secret guess = Some (Inr (?h4, (bulls, cows)))"
    by (simp only: evaluate_guess_heap_def n1 n2 pl cl option.case prod.case sum.case)
  have pure: "evaluate_guess (h ! secret) (h ! guess) = Inr (bulls, cows)"
    by (simp add: evaluate_guess_def pp cp)
  have frame: "?h4 ! a = h ! a" if "a < length h" for a
    using that by (simp add: nth_append)
  show ?thesis using ev pure frame assms(1,2) by blast
qed

theorem evaluate_guess_heap_frame_witness:
  "(0 :: nat) < length [[1, 2, 3, 4], [1, 2, 4, 3 :: int]] \<and>
   (1 :: nat) < length [[1, 2, 3, 4], [1, 2, 4, 3 :: int]] \<and>
   evaluate_guess_heap 5 [[1, 2, 3, 4], [1, 2, 4, 3]] 0 1 =
     Some (Inr ([[1, 2, 3, 4], [1, 2, 4, 3], [], [4, 3]], (2, 2))) \<and>
   (\<exists>h'. evaluate_guess_heap 5 [[1, 2, 3, 4], [1, 2, 4, 3]] 0 1 = Some (Inr (h', (2, 2))) \<and>
      h' ! 0 = [1, 2, 3, 4] \<and> h' ! 1 = [1, 2, 4, 3])"
  using evaluate_guess_heap_frame [of 0 "[[1, 2, 3, 4], [1, 2, 4, 3]]" 1 5]
  by (simp add: evaluate_guess_heap_def heap_new_list_def heap_append_def heap_remove_def
      list_remove_def eval_nat_numeral)

lemma evaluate_guess_heap_same_object:
  "evaluate_guess_heap 5 [[1, 2, 3, 4]] 0 0 = Some (Inr ([[1, 2, 3, 4], [], []], (4, 0)))"
  by (simp add: evaluate_guess_heap_def heap_new_list_def heap_append_def heap_remove_def
      list_remove_def eval_nat_numeral)

subsection \<open>The game loop\<close>

text \<open>
  An invalid line leaves the state as it is and the loop goes on. A valid line of decimal
  digits adds one to \<open>attempts\<close>, whether the loop goes on or ends with a win. The
  counter starts at 0.
\<close>

lemma parse_guess_decimal:
  "list_all isdecimal_chr user_input \<Longrightarrow> \<exists>guess. parse_guess user_input = Inr guess \<and> length guess = length user_input"
  by (induction user_input) (auto simp: int_chr_def)

lemma play_step_invalid:
  "\<not> fst (is_valid_input user_input) \<Longrightarrow> play_step st user_input = Continue st"
  by (cases "is_valid_input user_input") (simp add: play_step_def)

lemma play_step_decimal:
  assumes "fst (is_valid_input user_input)" and "list_all isdecimal_chr user_input"
  shows "play_step st user_input = Continue (st\<lparr>attempts := attempts st + 1\<rparr>) \<or>
         play_step st user_input = Break (st\<lparr>attempts := attempts st + 1\<rparr>)"
proof -
  obtain guess where g: "parse_guess user_input = Inr guess"
    using parse_guess_decimal [OF assms(2)] by blast
  obtain bulls us ug where pp:
    "position_pass (zip (secret_number st) guess) (0, [], []) = (bulls, us, ug)"
    by (cases "position_pass (zip (secret_number st) guess) (0, [], [])") auto
  obtain cows us' where cp: "cow_pass ug (0, us) = Inr (cows, us')"
    using cow_pass_total [of ug 0 us] by blast
  have ev: "evaluate_guess (secret_number st) guess = Inr (bulls, cows)"
    by (simp add: evaluate_guess_def pp cp)
  show ?thesis using assms(1) g ev
    by (cases "is_valid_input user_input") (simp add: play_step_def Let_def)
qed

lemma play_game_starts_at_zero:
  "generate_number sample = Inr secret \<Longrightarrow>
   play_game sample now inputs =
     play_loop \<lparr>secret_number = secret, attempts = 0, start_time = now\<rparr> inputs"
  by (simp add: play_game_def)

lemma play_game_example:
  "play_game [1, 2, 3, 4] () [Line ''12'', Line ''1243'', Line ''1234'']
     = Won \<lparr>secret_number = [1, 2, 3, 4], attempts = 2, start_time = ()\<rparr>"
  by (simp add: play_game_def generate_number_def play_step_def is_valid_input_def isdigit_def
      isdigit_chr_def isdecimal_chr_def int_chr_def DIGIT_COUNT_def str_int_def str_nat.simps
      evaluate_guess_def list_remove_def)

text \<open>
  C7: the attempt counter starts at 0, is incremented once for every submission that
  passes validation, and an invalid submission leaves the state unchanged. The code does
  not do this for a submission that passes validation and holds a superscript digit:
  \<open>is_valid_input\<close> accepts \<^verbatim>\<open>12\<close>, U+00B3, \<^verbatim>\<open>4\<close>, then \<^verbatim>\<open>int\<close> raises \<^verbatim>\<open>ValueError\<close> on its
  third character before \<open>attempts\<close> is incremented, and the game ends with the exception
  instead of counting the submission and going on to the next line.
\<close>

theorem play_step_superscript_digit_raises:
  "is_valid_input [CHR ''1'', CHR ''2'', CHR 0xB3, CHR ''4''] = (True, []) \<and>
   play_step \<lparr>secret_number = [1, 2, 3, 4], attempts = 0, start_time = ()\<rparr>
     [CHR ''1'', CHR ''2'', CHR 0xB3, CHR ''4''] = Raise ValueError \<and>
   play_game [1, 2, 3, 4] () [Line [CHR ''1'', CHR ''2'', CHR 0xB3, CHR ''4''], Line ''1234'']
     = Crashed ValueError"
  by (simp add: play_game_def generate_number_def play_step_def is_valid_input_def isdigit_def
      isdigit_chr_def isdecimal_chr_def int_chr_def DIGIT_COUNT_def str_int_def str_nat.simps)

end
